theory Spec2Isabelle
  imports Complex_Main
begin

section \<open>Errors raised by the Python code\<close>

text \<open>
  Every exception the modelled functions can raise is a value of this type.  A function that
  may raise returns \<open>error + 'a\<close>, with \<open>Inl\<close> carrying the exception.
\<close>

datatype error =
    ZeroDivisionError
  | IndexError
  | ShapeError
  | AssertionError string
  | RuntimeError string

section \<open>The numpy index operations used by the constructor of FTSliceDecoder\<close>

text \<open>
  Image sizes and pixel indices are natural numbers.  \<open>np.arange(a, b)\<close> is the list
  \<open>[a, a+1, ..., b-1]\<close>; with a step it has \<open>ceil((b - a) / s)\<close> entries, and numpy raises
  ZeroDivisionError when the step is \<open>0\<close>.
\<close>

definition arange :: "nat \<Rightarrow> nat \<Rightarrow> nat list" where
  "arange a b = [a..<b]"

definition arange_step :: "nat \<Rightarrow> nat \<Rightarrow> nat \<Rightarrow> error + nat list" where
  "arange_step a b s =
     (if s = 0 then Inl ZeroDivisionError
      else Inr (map (\<lambda>k. a + k * s) [0..<(b - a + s - 1) div s]))"

text \<open>
  \<open>np.meshgrid(xs, ys)\<close> returns two arrays of shape \<open>len(ys) \<times> len(xs)\<close>: the first repeats
  \<open>xs\<close> in every row, the second holds \<open>ys[r]\<close> all along row \<open>r\<close>.
\<close>

definition meshgrid :: "nat list \<Rightarrow> nat list \<Rightarrow> nat list list \<times> nat list list" where
  "meshgrid xs ys = (map (\<lambda>_. xs) ys, map (\<lambda>y. map (\<lambda>_. y) xs) ys)"

text \<open>The expression \<open>(j*D+i).ravel()\<close> on two such arrays: elementwise, then row-major.\<close>

definition flat_index :: "nat \<Rightarrow> nat list list \<Rightarrow> nat list list \<Rightarrow> nat list" where
  "flat_index D j i = concat (map2 (map2 (\<lambda>jv iv. jv * D + iv)) j i)"

text \<open>
  The Python slice \<open>xs[:-n]\<close>.  For \<open>n = 0\<close> it is \<open>xs[:0]\<close>, the empty list; otherwise the
  last \<open>n\<close> entries are dropped.  \<open>xs[n:]\<close> is \<open>drop n xs\<close> and \<open>xs[::-1]\<close> is \<open>rev xs\<close>.
\<close>

definition slice_upto_neg :: "nat \<Rightarrow> 'a list \<Rightarrow> 'a list" where
  "slice_upto_neg n xs = (if n = 0 then [] else take (length xs - n) xs)"

section \<open>FTSliceDecoder\<close>

text \<open>
  A lattice point is its vector of coordinates (three spatial coordinates, then the latent
  ones); a Fourier coefficient is a pair (real part, imaginary part).  A tensor whose last
  dimension is the coordinate is a list of points; leading batch dimensions are handled
  pointwise by every operation below, so one batch element is modelled.
\<close>

type_synonym point = "real list"
type_synonym px = "real \<times> real"

text \<open>
  The object built by \<open>FTSliceDecoder.__init__\<close>.  The field \<open>decoder\<close> is the function
  computed by the ResidLinearMLP with two outputs: it maps one lattice point to a pair, and
  acts on each point of a batch on its own.  The field \<open>top\<close> of the source is \<open>top_ix\<close>
  here, the fields \<open>D\<close> and \<open>D2\<close> are \<open>size_D\<close> and \<open>size_D2\<close>.
\<close>

record ftslice_decoder =
  decoder :: "point \<Rightarrow> px"
  center :: nat
  extra :: "nat list"
  all_eval :: "nat list"
  top_ix :: "nat list"
  bottom_rev :: "nat list"
  size_D :: nat
  size_D2 :: nat

text \<open>
  The class ResidLinearMLP is a parameter \<open>R\<close>: \<open>R in_dim nlayers hidden_dim out_dim\<close> is the
  function computed by the network built from these sizes (its weights are initialised at
  random, and the activation is always ReLU).  \<open>D2 = int(D/2)\<close> is \<open>D div 2\<close> for a natural
  number \<open>D\<close>.  The only statement of the constructor that can raise is
  \<open>np.arange((D2+1)*D, D**2, D)\<close>, for \<open>D = 0\<close>.
\<close>

type_synonym resid_mlp = "nat \<Rightarrow> nat \<Rightarrow> nat \<Rightarrow> nat \<Rightarrow> point \<Rightarrow> px"

definition FTSliceDecoder_init ::
    "resid_mlp \<Rightarrow> nat \<Rightarrow> nat \<Rightarrow> nat \<Rightarrow> nat \<Rightarrow> error + ftslice_decoder" where
  "FTSliceDecoder_init R in_dim D nlayers hidden_dim =
     (let D2 = D div 2;
          c = D2 * D + D2
      in case arange_step ((D2 + 1) * D) (D ^ 2) D of
           Inl e \<Rightarrow> Inl e
         | Inr ex \<Rightarrow>
             (let ae = arange 0 (c + 1) @ ex;
                  (i, j) = meshgrid (arange 1 D) (arange 1 (D2 + 1));
                  tp = slice_upto_neg D2 (flat_index D j i);
                  (i', j') = meshgrid (arange 1 D) (arange D2 D);
                  br = rev (drop D2 (flat_index D j' i'))
              in Inr \<lparr> decoder = R in_dim nlayers hidden_dim 2, center = c, extra = ex,
                       all_eval = ae, top_ix = tp, bottom_rev = br,
                       size_D = D, size_D2 = D2 \<rparr>))"

subsection \<open>decode\<close>

text \<open>
  \<open>decode\<close> writes into the tensor it is given: \<open>lattice[...,0:3]\<close> is a view, and the
  assignment through the boolean mask \<open>w\<close> stores the negated coordinates in the caller's
  buffer.  The model returns the buffer after the call together with the result.  Reading
  \<open>lattice[...,2]\<close> raises IndexError when the last dimension is shorter than three.
\<close>

definition decode :: "(point \<Rightarrow> px) \<Rightarrow> point list \<Rightarrow> error + (point list \<times> px list)" where
  "decode mlp lattice =
     (if \<exists>p \<in> set lattice. length p < 3 then Inl IndexError
      else
        let w = map (\<lambda>p. p ! 2 > 0) lattice;
            lattice' = map2 (\<lambda>p b. if b then map uminus (take 3 p) @ drop 3 p else p) lattice w;
            result = map mlp lattice';
            result' = map2 (\<lambda>(re, im) b. if b then (re, im * (- 1)) else (re, im)) result w
        in Inr (lattice', result'))"

text \<open>The complex conjugate of a coefficient.\<close>

definition conj_px :: "px \<Rightarrow> px" where
  "conj_px v = (fst v, - snd v)"

subsection \<open>forward\<close>

text \<open>
  Indexing with an index array copies the selected rows (\<open>gather\<close>) and raises IndexError
  for an index out of range.  Assigning through an index array (\<open>scatter\<close>) writes the rows
  in order; the values need as many rows as there are indices, or one row, which is
  broadcast.
\<close>

definition gather :: "'a list \<Rightarrow> nat list \<Rightarrow> error + 'a list" where
  "gather xs ix = (if \<forall>i \<in> set ix. i < length xs then Inr (map ((!) xs) ix) else Inl IndexError)"

definition scatter :: "'a list \<Rightarrow> nat list \<Rightarrow> 'a list \<Rightarrow> error + 'a list" where
  "scatter xs ix vs =
     (if \<exists>i \<in> set ix. length xs \<le> i then Inl IndexError
      else if length vs \<noteq> length ix \<and> length vs \<noteq> 1 then Inl ShapeError
      else
        let vs' = (if length vs = length ix then vs else replicate (length ix) (vs ! 0))
        in Inr (fold (\<lambda>(i, v) acc. acc[i := v]) (zip ix vs') xs))"

text \<open>
  \<open>torch.empty\<close> returns uninitialised memory: \<open>uninit n\<close> is whatever cell \<open>n\<close> holds.
  \<open>forward\<close> hands \<open>decode\<close> a copy of the selected points, so its own argument is left as
  it was and only the image is returned.
\<close>

definition forward :: "ftslice_decoder \<Rightarrow> (nat \<Rightarrow> px) \<Rightarrow> point list \<Rightarrow> error + px list" where
  "forward self uninit lattice =
     (let image = map uninit [0..<length lattice]
      in case gather lattice (all_eval self) of
           Inl e \<Rightarrow> Inl e
         | Inr sel \<Rightarrow>
             (case decode (decoder self) sel of
                Inl e \<Rightarrow> Inl e
              | Inr (sel', top_half) \<Rightarrow>
                  (case scatter image (all_eval self) top_half of
                     Inl e \<Rightarrow> Inl e
                   | Inr image' \<Rightarrow>
                       (case gather top_half (top_ix self) of
                          Inl e \<Rightarrow> Inl e
                        | Inr mirrored \<Rightarrow>
                            scatter image' (bottom_rev self)
                              (map (\<lambda>(re, im). (re * 1, im * (- 1))) mirrored)))))"

subsection \<open>translate\<close>

text \<open>
  \<open>coords\<close> has shape \<open>N \<times> 2\<close>, \<open>img\<close> has shape \<open>B \<times> N \<times> 2\<close> and \<open>t\<close> has shape
  \<open>B \<times> T \<times> 2\<close>; the result has shape \<open>B \<times> T \<times> N \<times> 2\<close>.  The products of \<open>img\<close> with the
  cosines and sines broadcast the batch dimensions of \<open>img\<close> and \<open>t\<close> and the pixel
  dimensions of \<open>img\<close> and \<open>coords\<close>: two sizes are compatible when they are equal or one
  of them is \<open>1\<close>.  The rows of a tensor all have the same length.

  \<open>coords @ -t * -2 * np.pi\<close> is read from the left: the matrix product with \<open>-t\<close>, times
  \<open>-2\<close>, times \<open>\<pi>\<close>.
\<close>

definition bcompat :: "nat \<Rightarrow> nat \<Rightarrow> bool" where
  "bcompat a b = (a = b \<or> a = 1 \<or> b = 1)"

definition bdim :: "nat \<Rightarrow> nat \<Rightarrow> nat" where
  "bdim a b = (if a = 1 then b else a)"

definition bget :: "'a list \<Rightarrow> nat \<Rightarrow> 'a" where
  "bget xs i = (if length xs = 1 then xs ! 0 else xs ! i)"

definition tfilt :: "real \<times> real \<Rightarrow> real \<times> real \<Rightarrow> real" where
  "tfilt k s = (fst k * (- fst s) + snd k * (- snd s)) * (- 2) * pi"

definition shift_px :: "real \<times> real \<Rightarrow> px \<Rightarrow> real \<times> real \<Rightarrow> px" where
  "shift_px k v s =
     (let c = cos (tfilt k s); sn = sin (tfilt k s)
      in (fst v * c - snd v * sn, fst v * sn + snd v * c))"

definition translate ::
    "(real \<times> real) list \<Rightarrow> px list list \<Rightarrow> (real \<times> real) list list \<Rightarrow> error + px list list list" where
  "translate coords img t =
     (if \<not> bcompat (length img) (length t) then Inl ShapeError
      else if \<exists>row \<in> set img. \<not> bcompat (length row) (length coords) then Inl ShapeError
      else Inr (map (\<lambda>b.
                  map (\<lambda>s.
                    map (\<lambda>n. shift_px (bget coords n) (bget (bget img b) n) s)
                      [0..<bdim (length (bget img b)) (length coords)])
                    (bget t b))
                  [0..<bdim (length img) (length t)]))"

section \<open>HetOnlyVAE\<close>

text \<open>
  The encoder chosen by the constructor, with the sizes it is built from.  TiltEncoder
  asserts \<open>nlayers > 2\<close> in its own constructor.
\<close>

datatype encoder =
    ConvEncoder nat nat
  | ResidLinearMLP nat nat nat nat
  | MLP nat nat nat nat
  | TiltEncoder nat nat nat nat

definition TiltEncoder_init :: "nat \<Rightarrow> nat \<Rightarrow> nat \<Rightarrow> nat \<Rightarrow> error + encoder" where
  "TiltEncoder_init in_dim nlayers hidden_dim out_dim =
     (if nlayers > 2 then Inr (TiltEncoder in_dim nlayers hidden_dim out_dim)
      else Inl (AssertionError []))"

record lattice =
  lattice_D :: nat
  lattice_coords :: "point list"

record hetonly_vae =
  vae_lattice :: lattice
  vae_in_dim :: nat
  vae_z_dim :: nat
  vae_encoder :: encoder
  vae_encode_mode :: string
  vae_decoder :: ftslice_decoder

definition HetOnlyVAE_init ::
    "resid_mlp \<Rightarrow> lattice \<Rightarrow> nat \<Rightarrow> nat \<Rightarrow> nat \<Rightarrow> nat \<Rightarrow> nat \<Rightarrow> nat \<Rightarrow> string \<Rightarrow> error + hetonly_vae" where
  "HetOnlyVAE_init R lat in_dim encode_layers encode_dim decode_layers decode_dim z_dim encode_mode =
     (case
        (if encode_mode = ''conv'' then
           (if lattice_D lat = 64 then Inr (ConvEncoder encode_dim (z_dim * 2))
            else Inl (AssertionError ''CNN encoder is hard-coded for 64x64 images''))
         else if encode_mode = ''resid'' then
           Inr (ResidLinearMLP in_dim encode_layers encode_dim (z_dim * 2))
         else if encode_mode = ''mlp'' then
           Inr (MLP in_dim encode_layers encode_dim (z_dim * 2))
         else if encode_mode = ''tilt'' then
           TiltEncoder_init in_dim encode_layers encode_dim (z_dim * 2)
         else Inl (RuntimeError (''Encoder mode '' @ encode_mode @ '' not recognized'')))
      of
        Inl e \<Rightarrow> Inl e
      | Inr enc \<Rightarrow>
          (case FTSliceDecoder_init R (3 + z_dim) (lattice_D lat) decode_layers decode_dim of
             Inl e \<Rightarrow> Inl e
           | Inr dec \<Rightarrow>
               Inr \<lparr> vae_lattice = lat, vae_in_dim = in_dim, vae_z_dim = z_dim,
                      vae_encoder = enc, vae_encode_mode = encode_mode, vae_decoder = dec \<rparr>))"

text \<open>
  \<open>cat_z\<close> as \<open>decode\<close> calls it: \<open>coords\<close> has shape \<open>B \<times> N \<times> 3\<close> and \<open>z\<close> has shape
  \<open>B \<times> z_dim\<close>.  The assertion checks the last dimension of \<open>coords\<close>.
  \<open>z.view(z.size(0), 1, 1)\<close> raises RuntimeError unless \<open>z\<close> holds exactly \<open>z.size(0)\<close>
  numbers; \<open>expand(B, N, 1)\<close> raises RuntimeError unless the first size of \<open>z\<close> is the
  one of \<open>coords\<close> or \<open>1\<close>; \<open>torch.cat\<close> then appends the one number to every point.
\<close>

definition cat_z :: "point list list \<Rightarrow> real list list \<Rightarrow> error + point list list" where
  "cat_z coords z =
     (if \<exists>im \<in> set coords. \<exists>p \<in> set im. length p \<noteq> 3 then Inl (AssertionError [])
      else if length (concat z) \<noteq> length z then
        Inl (RuntimeError ''shape is invalid for input size'')
      else if length z \<noteq> length coords \<and> length z \<noteq> 1 then
        Inl (RuntimeError ''the expanded size of the tensor must match the existing size'')
      else
        let zv = concat z
        in Inr (map (\<lambda>b. map (\<lambda>p. p @ [bget zv b]) (coords ! b)) [0..<length coords]))"

section \<open>SO3reparameterize\<close>

text \<open>
  \<open>sampleSO3\<close> returns tensors of different ranks on its two paths, so its values are
  tensors of any rank.
\<close>

datatype tensor = Scalar real | Tensor "tensor list"

text \<open>
  The operations \<open>sampleSO3\<close> calls and the source does not define: the draw
  \<open>torch.randn_like\<close>, the elementwise product, the matrix product \<open>@\<close>, and the functions
  \<open>expmap\<close> and \<open>quaternions_to_SO3\<close> of the module \<open>lie_tools\<close>.
\<close>

record so3_env =
  randn_like :: "tensor \<Rightarrow> tensor"
  mul :: "tensor \<Rightarrow> tensor \<Rightarrow> tensor"
  matmul :: "tensor \<Rightarrow> tensor \<Rightarrow> tensor"
  expmap :: "tensor \<Rightarrow> tensor"
  quaternions_to_SO3 :: "tensor \<Rightarrow> tensor"

definition sampleSO3 :: "so3_env \<Rightarrow> bool \<Rightarrow> tensor \<Rightarrow> tensor \<Rightarrow> tensor \<times> tensor" where
  "sampleSO3 env training z_mu z_std =
     (if \<not> training then (z_mu, z_std)
      else
        let eps = randn_like env z_std;
            w_eps = mul env eps z_std;
            rot_eps = expmap env w_eps;
            z_mu' = quaternions_to_SO3 env z_mu;
            rot_sampled = matmul env z_mu' rot_eps
        in (rot_sampled, w_eps))"

text \<open>
  Modelled from the spec: \<open>lie_tools.quaternions_to_SO3\<close> is not part of the source.  The
  spec describes it as the standard conversion of a unit quaternion to a rotation matrix,
  normalising its argument first.  A tensor of four numbers is one quaternion (scalar part
  first); any other tensor is a batch.
\<close>

fun quaternion_to_SO3_spec :: "tensor \<Rightarrow> tensor" where
  "quaternion_to_SO3_spec (Tensor [Scalar a, Scalar b, Scalar c, Scalar d]) =
     (let n = sqrt (a * a + b * b + c * c + d * d);
          w = a / n; x = b / n; y = c / n; z = d / n
      in Tensor
           [Tensor [Scalar (1 - 2 * (y * y + z * z)), Scalar (2 * (x * y - z * w)),
                    Scalar (2 * (x * z + y * w))],
            Tensor [Scalar (2 * (x * y + z * w)), Scalar (1 - 2 * (x * x + z * z)),
                    Scalar (2 * (y * z - x * w))],
            Tensor [Scalar (2 * (x * z - y * w)), Scalar (2 * (y * z + x * w)),
                    Scalar (1 - 2 * (x * x + y * y))]])"
| "quaternion_to_SO3_spec (Tensor ts) = Tensor (map quaternion_to_SO3_spec ts)"
| "quaternion_to_SO3_spec (Scalar r) = Scalar r"

section \<open>The index arrays in closed form\<close>

text \<open>
  The flattened indices of the rows \<open>a, ..., b-1\<close> and the columns \<open>1, ..., D-1\<close>, in
  row-major order: what \<open>flat_index\<close> computes on the arrays of \<open>meshgrid\<close>.
\<close>

definition grid :: "nat \<Rightarrow> nat \<Rightarrow> nat \<Rightarrow> nat list" where
  "grid D a b = concat (map (\<lambda>y. map (\<lambda>x. y * D + x) [1..<D]) [a..<b])"

section \<open>Properties of the index arrays\<close>


lemma flat_index_meshgrid:
  "(case meshgrid xs ys of (i, j) \<Rightarrow> flat_index D j i) = concat (map (\<lambda>y. map (\<lambda>x. y * D + x) xs) ys)"
  by (simp add: meshgrid_def flat_index_def zip_map1 zip_map2 map_concat o_def split_def zip_same_conv_map)

lemma length_grid:
  "length (concat (map (\<lambda>y. map (f y) xs) ys)) = length ys * length xs"
  by (induction ys) simp_all

lemma nth_grid:
  "k < length ys * length xs \<Longrightarrow>
   concat (map (\<lambda>y. map (f y) xs) ys) ! k = f (ys ! (k div length xs)) (xs ! (k mod length xs))"
proof (induction ys arbitrary: k)
  case Nil
  then show ?case by simp
next
  case (Cons y ys)
  let ?n = "length xs"
  show ?case
  proof (cases "k < ?n")
    case True
    then show ?thesis by (simp add: nth_append)
  next
    case False
    then have ge: "?n \<le> k" by simp
    from Cons.prems ge have lt: "k - ?n < length ys * ?n" by simp
    from False have npos: "0 < ?n" using Cons.prems by (cases "?n = 0") simp_all
    have d: "k div ?n = Suc ((k - ?n) div ?n)"
      using ge npos by (simp add: le_div_geq)
    have m: "k mod ?n = (k - ?n) mod ?n"
      using ge by (simp add: le_mod_geq)
    show ?thesis
      using False Cons.IH [OF lt] by (simp add: nth_append d m)
  qed
qed

lemma init_fields:
  "0 < D \<Longrightarrow> FTSliceDecoder_init R in_dim D nlayers hidden_dim = Inr dec \<Longrightarrow>
     top_ix dec = slice_upto_neg (D div 2) (grid D 1 (D div 2 + 1)) \<and>
     bottom_rev dec = rev (drop (D div 2) (grid D (D div 2) D)) \<and>
     all_eval dec = [0..<(D div 2) * D + D div 2 + 1] @ extra dec \<and>
     extra dec = map (\<lambda>k. (D div 2 + 1) * D + k * D) [0..<(D ^ 2 - (D div 2 + 1) * D + D - 1) div D] \<and>
     center dec = (D div 2) * D + D div 2 \<and> size_D dec = D \<and> size_D2 dec = D div 2 \<and> decoder dec = R in_dim nlayers hidden_dim 2"
  by (auto simp: FTSliceDecoder_init_def Let_def arange_step_def arange_def grid_def
      meshgrid_def flat_index_def zip_map1 zip_map2 map_concat o_def split_def zip_same_conv_map)

lemma init_zero: "FTSliceDecoder_init R in_dim 0 nlayers hidden_dim = Inl ZeroDivisionError"
  by (simp add: FTSliceDecoder_init_def arange_step_def)

lemma init_total: "0 < D \<Longrightarrow> \<exists>dec. FTSliceDecoder_init R in_dim D nlayers hidden_dim = Inr dec"
  by (simp add: FTSliceDecoder_init_def arange_step_def Let_def split_def)



lemma length_grid_D: "length (grid D a b) = (b - a) * (D - 1)"
  by (simp add: grid_def length_grid)

lemma nth_grid_D:
  assumes "k < (b - a) * (D - 1)"
  shows "grid D a b ! k = (a + k div (D - 1)) * D + (1 + k mod (D - 1))"
proof -
  have n: "0 < D - 1" using assms by (cases "D - 1 = 0") simp_all
  have dv: "k div (D - 1) < b - a"
    using assms n by (simp add: less_mult_imp_div_less)
  have md: "k mod (D - 1) < D - 1" using n by simp
  have "grid D a b ! k = ([a..<b] ! (k div length [1..<D])) * D + [1..<D] ! (k mod length [1..<D])"
    unfolding grid_def using assms by (intro nth_grid) simp
  then show ?thesis using dv md by simp
qed

lemma mirror_divmod:
  fixes k n h :: nat
  assumes "k < h * n"
  shows "(h * n - Suc k) div n = h - 1 - k div n" and "(h * n - Suc k) mod n = n - 1 - k mod n"
proof -
  have n: "0 < n" using assms by (cases "n = 0") simp_all
  define a where "a = k div n"
  define b where "b = k mod n"
  have k: "k = a * n + b" by (simp add: a_def b_def)
  have b: "b < n" using n by (simp add: b_def)
  have a: "a < h" using assms n by (simp add: a_def less_mult_imp_div_less)
  obtain c where c: "h = Suc (a + c)" using a less_imp_Suc_add by blast
  have "h * n = (h - 1 - a) * n + a * n + n"
    by (simp add: c algebra_simps)
  then have m: "h * n - Suc k = (h - 1 - a) * n + (n - 1 - b)"
    using b k by simp
  have r: "n - 1 - b < n" using n by simp
  show "(h * n - Suc k) div n = h - 1 - k div n"
    using r n by (simp add: m a_def [symmetric])
  show "(h * n - Suc k) mod n = n - 1 - k mod n"
    using r n by (simp add: m b_def [symmetric])
qed

lemma top_bottom_nth:
  assumes D: "even D" "0 < D" and init: "FTSliceDecoder_init R in_dim D nlayers hidden_dim = Inr dec"
  shows "length (top_ix dec) = (D div 2) * (D - 2)"
    and "length (bottom_rev dec) = (D div 2) * (D - 2)"
    and "k < (D div 2) * (D - 2) \<Longrightarrow>
           top_ix dec ! k = (1 + k div (D - 1)) * D + (1 + k mod (D - 1))"
    and "k < (D div 2) * (D - 2) \<Longrightarrow>
           bottom_rev dec ! k = (D - (1 + k div (D - 1))) * D + (D - (1 + k mod (D - 1)))"
    and "k < (D div 2) * (D - 2) \<Longrightarrow> k div (D - 1) < D div 2"
proof -
  define h where "h = D div 2"
  define n where "n = D - 1"
  have Dh: "D = 2 * h" using D by (simp add: h_def)
  have h: "0 < h" using D Dh by simp
  have n: "n = 2 * h - 1" "0 < n" using h by (simp_all add: n_def Dh)
  obtain c where c: "h = Suc c" using h by (cases h) simp_all
  have hn: "h * (D - 2) = h * n - h" "h \<le> h * n"
    by (simp_all add: Dh n c algebra_simps)
  note f = init_fields [OF D(2) init, folded h_def]
  have top: "top_ix dec = take (h * n - h) (grid D 1 (h + 1))"
    using f h by (simp add: slice_upto_neg_def length_grid_D n_def)
  have lenB: "length (grid D h D) = h * n"
    by (simp add: length_grid_D n_def) (simp add: Dh)
  have bot: "bottom_rev dec = rev (drop h (grid D h D))" using f by simp
  show lt: "length (top_ix dec) = h * (D - 2)"
    by (simp add: top length_grid_D hn n_def)
  show lb: "length (bottom_rev dec) = h * (D - 2)"
    by (simp add: bot lenB hn)
  {
    assume k: "k < h * (D - 2)"
    then have k': "k < h * n - h" "k < h * n" using hn by simp_all
    show "k div (D - 1) < h"
      using k'(2) n by (simp add: less_mult_imp_div_less n_def)
    have "top_ix dec ! k = grid D 1 (h + 1) ! k" using k' by (simp add: top)
    also have "\<dots> = (1 + k div (D - 1)) * D + (1 + k mod (D - 1))"
      using k' by (intro nth_grid_D) (simp add: n_def)
    finally show "top_ix dec ! k = (1 + k div (D - 1)) * D + (1 + k mod (D - 1))" .
    have a: "k div n < h" using k'(2) n by (simp add: less_mult_imp_div_less)
    have b: "k mod n < n" using n by simp
    have "bottom_rev dec ! k = drop h (grid D h D) ! (h * n - h - Suc k)"
      using k' by (simp add: bot rev_nth lenB)
    also have "\<dots> = grid D h D ! (h * n - Suc k)"
      using k' hn by (simp add: lenB)
    also have "\<dots> = (h + (h * n - Suc k) div (D - 1)) * D + (1 + (h * n - Suc k) mod (D - 1))"
      using k' h by (intro nth_grid_D) (simp add: n_def Dh)
    also have "\<dots> = (h + (h - 1 - k div n)) * D + (1 + (n - 1 - k mod n))"
      using mirror_divmod [OF k'(2)] by (simp add: n_def)
    also have "\<dots> = (D - (1 + k div n)) * D + (D - (1 + k mod n))"
    proof -
      have e1: "h + (h - 1 - k div n) = D - (1 + k div n)"
        using a by (simp add: Dh)
      have "\<And>x. x < n \<Longrightarrow> 1 + (n - 1 - x) = D - (1 + x)"
        unfolding n_def by arith
      from this [OF b] have e2: "1 + (n - 1 - k mod n) = D - (1 + k mod n)" .
      show ?thesis by (simp only: e1 e2)
    qed
    finally show "bottom_rev dec ! k = (D - (1 + k div (D - 1))) * D + (D - (1 + k mod (D - 1)))"
      by (simp add: n_def)
  }
qed



lemma init_8:
  "FTSliceDecoder_init R in_dim 8 nlayers hidden_dim = Inr \<lparr> decoder = R in_dim nlayers hidden_dim 2, center = 36, extra = [40, 48, 56],
     all_eval = [0..<37] @ [40, 48, 56],
     top_ix = [9, 10, 11, 12, 13, 14, 15, 17, 18, 19, 20, 21, 22, 23,
               25, 26, 27, 28, 29, 30, 31, 33, 34, 35],
     bottom_rev = [63, 62, 61, 60, 59, 58, 57, 55, 54, 53, 52, 51, 50, 49,
                   47, 46, 45, 44, 43, 42, 41, 39, 38, 37],
     size_D = 8, size_D2 = 4 \<rparr>"
  by (simp add: FTSliceDecoder_init_def arange_step_def arange_def meshgrid_def flat_index_def
      slice_upto_neg_def upt_conv_Cons)

lemma cover_8:
  "distinct ([0..<37] @ [40, 48, 56] @ [63, 62, 61, 60, 59, 58, 57, 55, 54, 53, 52, 51, 50, 49,
                   47, 46, 45, 44, 43, 42, 41, 39, 38, 37 :: nat])"
  "sort ([0..<37] @ [40, 48, 56] @ [63, 62, 61, 60, 59, 58, 57, 55, 54, 53, 52, 51, 50, 49,
                   47, 46, 45, 44, 43, 42, 41, 39, 38, 37 :: nat]) = [0..<64]"
  by code_simp+

text \<open>
  Claim C3.  For every even \<open>D\<close>, the constructor raises only for \<open>D = 0\<close>; otherwise the
  arrays \<open>top\<close> and \<open>bottom_rev\<close> it builds have the same length, every entry \<open>top[k]\<close> is
  \<open>j*D+i\<close> for a row \<open>1 \<le> j \<le> D/2\<close> and a column \<open>1 \<le> i \<le> D-1\<close>, and for every such
  \<open>j\<close> and \<open>i\<close> the entry \<open>bottom_rev[k]\<close> is \<open>(D-j)*D + (D-i)\<close>, the reflection of that
  pixel through the centre of the grid.
\<close>

theorem index_reflection:
  assumes "even D"
  shows "case FTSliceDecoder_init R in_dim D nlayers hidden_dim of
           Inl e \<Rightarrow> D = 0
         | Inr dec \<Rightarrow>
             length (top_ix dec) = length (bottom_rev dec) \<and>
             (\<forall>k<length (top_ix dec).
                (\<exists>j i. 1 \<le> j \<and> j \<le> D div 2 \<and> 1 \<le> i \<and> i \<le> D - 1 \<and> top_ix dec ! k = j * D + i) \<and>
                (\<forall>j i. 1 \<le> j \<and> j \<le> D div 2 \<and> 1 \<le> i \<and> i \<le> D - 1 \<and> top_ix dec ! k = j * D + i
                   \<longrightarrow> bottom_rev dec ! k = (D - j) * D + (D - i)))"
proof (cases "FTSliceDecoder_init R in_dim D nlayers hidden_dim")
  case (Inl e)
  then have "D = 0" using init_total [of D R in_dim nlayers hidden_dim] by (cases "D = 0") auto
  with Inl show ?thesis by simp
next
  case (Inr dec)
  then have pos: "0 < D" using init_zero [of R in_dim nlayers hidden_dim] by (cases "D = 0") auto
  note tb = top_bottom_nth [OF assms pos Inr]
  have "\<exists>j i. 1 \<le> j \<and> j \<le> D div 2 \<and> 1 \<le> i \<and> i \<le> D - 1 \<and> top_ix dec ! k = j * D + i"
    and "\<forall>j i. 1 \<le> j \<and> j \<le> D div 2 \<and> 1 \<le> i \<and> i \<le> D - 1 \<and> top_ix dec ! k = j * D + i
                   \<longrightarrow> bottom_rev dec ! k = (D - j) * D + (D - i)"
    if k: "k < length (top_ix dec)" for k
  proof -
    from k have k': "k < D div 2 * (D - 2)" by (simp add: tb(1))
    define a where "a = 1 + k div (D - 1)"
    define b where "b = 1 + k mod (D - 1)"
    have n: "0 < D - 1" using k' by (cases "D - 1 = 0") simp_all
    have a: "1 \<le> a" "a \<le> D div 2" using tb(5) [OF k'] by (simp_all add: a_def)
    have m: "k mod (D - 1) < D - 1" using n by (rule mod_less_divisor)
    have b: "1 \<le> b" "b \<le> D - 1" "b < D"
      unfolding b_def using m by arith+
    have t: "top_ix dec ! k = a * D + b" using tb(3) [OF k'] by (simp add: a_def b_def)
    have r: "bottom_rev dec ! k = (D - a) * D + (D - b)"
      using tb(4) [OF k'] by (simp add: a_def b_def)
    show "\<exists>j i. 1 \<le> j \<and> j \<le> D div 2 \<and> 1 \<le> i \<and> i \<le> D - 1 \<and> top_ix dec ! k = j * D + i"
      using a b t by blast
    show "\<forall>j i. 1 \<le> j \<and> j \<le> D div 2 \<and> 1 \<le> i \<and> i \<le> D - 1 \<and> top_ix dec ! k = j * D + i
                   \<longrightarrow> bottom_rev dec ! k = (D - j) * D + (D - i)"
    proof (intro allI impI)
      fix j i
      assume h: "1 \<le> j \<and> j \<le> D div 2 \<and> 1 \<le> i \<and> i \<le> D - 1 \<and> top_ix dec ! k = j * D + i"
      then have "i \<le> D - 1" by blast
      then have i: "i < D" using pos by arith
      from h t have eq: "j * D + i = a * D + b" by simp
      have "(j * D + i) div D = j" "(j * D + i) mod D = i" using i by simp_all
      moreover have "(a * D + b) div D = a" "(a * D + b) mod D = b" using b(3) by simp_all
      ultimately have "j = a" "i = b" using eq by simp_all
      then show "bottom_rev dec ! k = (D - j) * D + (D - i)" using r by simp
    qed
  qed
  then show ?thesis using Inr by (simp add: tb(1,2))
qed

theorem index_reflection_witness:
  "even (4::nat) \<and>
   (case FTSliceDecoder_init (\<lambda>_ _ _ _ p. (0, 0)) 3 4 1 8 of
           Inl e \<Rightarrow> (4::nat) = 0
         | Inr dec \<Rightarrow>
             length (top_ix dec) = length (bottom_rev dec) \<and>
             (\<forall>k<length (top_ix dec).
                (\<exists>j i. 1 \<le> j \<and> j \<le> 4 div 2 \<and> 1 \<le> i \<and> i \<le> 4 - 1 \<and> top_ix dec ! k = j * 4 + i) \<and>
                (\<forall>j i. 1 \<le> j \<and> j \<le> 4 div 2 \<and> 1 \<le> i \<and> i \<le> 4 - 1 \<and> top_ix dec ! k = j * 4 + i
                   \<longrightarrow> bottom_rev dec ! k = (4 - j) * 4 + (4 - i))))"
proof -
  have e: "even (4::nat)" by simp
  from e index_reflection [OF e, of "\<lambda>_ _ _ _ p. (0, 0)" 3 1 8] show ?thesis by (rule conjI)
qed


subsection \<open>The arrays for D = 8\<close>

text \<open>
  Claim C4, as amended.  For \<open>D = 8\<close> the constructor returns, every flattened pixel index
  in \<open>[0, 64)\<close> occurs exactly once in \<open>all_eval\<close> followed by \<open>bottom_rev\<close>, and \<open>top\<close> and
  \<open>bottom_rev\<close> both have 24 entries (four rows of seven columns, less four).
\<close>

theorem index_completeness_8:
  "case FTSliceDecoder_init R in_dim 8 nlayers hidden_dim of
     Inl e \<Rightarrow> False
   | Inr dec \<Rightarrow>
       distinct (all_eval dec @ bottom_rev dec) \<and>
       set (all_eval dec @ bottom_rev dec) = {0..<64} \<and>
       length (top_ix dec) = 24 \<and> length (bottom_rev dec) = 24"
proof -
  let ?xs = "[0..<37] @ [40, 48, 56] @ [63, 62, 61, 60, 59, 58, 57, 55, 54, 53, 52, 51, 50, 49,
                   47, 46, 45, 44, 43, 42, 41, 39, 38, 37 :: nat]"
  have "set ?xs = set (sort ?xs)" by (simp only: set_sort)
  also have "\<dots> = {0..<64}" by (simp only: cover_8(2) set_upt)
  finally have s: "set ?xs = {0..<64}" .
  show ?thesis
    using cover_8(1) s by (simp add: init_8)
qed

text \<open>
  The claim as the spec states it, with 27 entries in \<open>top\<close> and \<open>bottom_rev\<close>, fails.
\<close>

theorem index_completeness_8_counterexample:
  "\<not> (case FTSliceDecoder_init (\<lambda>_ _ _ _ p. (0, 0)) 3 8 1 8 of
         Inl e \<Rightarrow> False
       | Inr dec \<Rightarrow>
           distinct (all_eval dec @ bottom_rev dec) \<and>
           set (all_eval dec @ bottom_rev dec) = {0..<64} \<and>
           length (top_ix dec) = 27 \<and> length (bottom_rev dec) = 27)"
  by (simp add: init_8)

section \<open>Properties of decode\<close>

lemma decode_Inr:
  assumes "\<forall>p \<in> set lattice. 3 \<le> length p"
  shows "decode mlp lattice =
           Inr (map (\<lambda>p. if p ! 2 > 0 then map uminus (take 3 p) @ drop 3 p else p) lattice,
                map (\<lambda>p. if p ! 2 > 0
                          then (fst (mlp (map uminus (take 3 p) @ drop 3 p)),
                                - snd (mlp (map uminus (take 3 p) @ drop 3 p)))
                          else mlp p) lattice)"
proof -
  have ok: "\<not> (\<exists>p \<in> set lattice. length p < 3)" using assms by auto
  have b: "map2 (\<lambda>p b. if b then map uminus (take 3 p) @ drop 3 p else p) lattice
             (map (\<lambda>p. p ! 2 > 0) lattice) =
           map (\<lambda>p. if p ! 2 > 0 then map uminus (take 3 p) @ drop 3 p else p) lattice"
    by (induction lattice) simp_all
  have r: "map2 (\<lambda>(re, im) b. if b then (re, im * (- 1)) else (re, im))
             (map mlp (map (\<lambda>p. if p ! 2 > 0 then map uminus (take 3 p) @ drop 3 p else p) lattice))
             (map (\<lambda>p. p ! 2 > 0) lattice) =
           map (\<lambda>p. if p ! 2 > 0
                     then (fst (mlp (map uminus (take 3 p) @ drop 3 p)),
                           - snd (mlp (map uminus (take 3 p) @ drop 3 p)))
                     else mlp p) lattice"
    by (induction lattice) (simp_all add: split_beta)
  show ?thesis
    unfolding decode_def Let_def using ok by (simp only: if_False b r)
qed

lemma decode_Inl:
  assumes "\<exists>p \<in> set lattice. length p < 3"
  shows "decode mlp lattice = Inl IndexError"
  using assms by (simp add: decode_def)

lemma decode_length:
  assumes "decode mlp lattice = Inr (buf, res)"
  shows "length buf = length lattice" and "length res = length lattice"
proof -
  have ok: "\<forall>p \<in> set lattice. 3 \<le> length p"
  proof (rule ccontr)
    assume "\<not> ?thesis"
    then have "\<exists>p \<in> set lattice. length p < 3" by (simp add: not_le)
    then show False using assms decode_Inl by fastforce
  qed
  from assms show "length buf = length lattice" "length res = length lattice"
    unfolding decode_Inr [OF ok] by auto
qed

text \<open>
  Claim C9.  When every point of the lattice has at least three coordinates and some point
  has a positive third coordinate, \<open>decode\<close> returns, and the buffer it leaves behind holds
  each point with a positive third coordinate with its first three coordinates negated and
  every other point as it was; so the buffer differs from the one passed in.
\<close>

theorem decode_mutates_input:
  assumes "\<forall>p \<in> set lattice. 3 \<le> length p" and "\<exists>p \<in> set lattice. p ! 2 > 0"
  shows "\<exists>buf res. decode mlp lattice = Inr (buf, res) \<and>
           length buf = length lattice \<and>
           (\<forall>n < length lattice.
              buf ! n = (if lattice ! n ! 2 > 0
                         then map uminus (take 3 (lattice ! n)) @ drop 3 (lattice ! n)
                         else lattice ! n)) \<and>
           buf \<noteq> lattice"
proof -
  define buf where
    "buf = map (\<lambda>p. if p ! 2 > 0 then map uminus (take 3 p) @ drop 3 p else p) lattice"
  from assms(2) obtain n where n: "n < length lattice" "lattice ! n ! 2 > 0"
    by (auto simp: in_set_conv_nth)
  have len: "3 \<le> length (lattice ! n)" using assms(1) n(1) by simp
  have "buf ! n ! 2 = (map uminus (take 3 (lattice ! n)) @ drop 3 (lattice ! n)) ! 2"
    using n by (simp add: buf_def)
  also have "\<dots> = - (lattice ! n ! 2)" using len by (simp add: nth_append)
  finally have "buf ! n ! 2 \<noteq> lattice ! n ! 2" using n(2) by simp
  then have ne: "buf \<noteq> lattice" by auto
  have nth: "\<forall>n < length lattice.
              buf ! n = (if lattice ! n ! 2 > 0
                         then map uminus (take 3 (lattice ! n)) @ drop 3 (lattice ! n)
                         else lattice ! n)"
    by (simp add: buf_def)
  have "decode mlp lattice = Inr (buf, map (\<lambda>p. if p ! 2 > 0
                          then (fst (mlp (map uminus (take 3 p) @ drop 3 p)),
                                - snd (mlp (map uminus (take 3 p) @ drop 3 p)))
                          else mlp p) lattice)"
    unfolding buf_def by (rule decode_Inr [OF assms(1)])
  moreover have "length buf = length lattice" by (simp add: buf_def)
  ultimately show ?thesis using nth ne by blast
qed

theorem decode_mutates_input_witness:
  "list_all (\<lambda>p. 3 \<le> length p) [[1, 2, 3], [0, 0, - 1 :: real]] \<and>
   (\<exists>p \<in> set [[1, 2, 3], [0, 0, - 1 :: real]]. p ! 2 > 0) \<and>
   (\<exists>buf res. decode (\<lambda>p. (p ! 0, p ! 1)) [[1, 2, 3], [0, 0, - 1]] = Inr (buf, res) \<and>
           length buf = length [[1, 2, 3], [0, 0, - 1 :: real]] \<and>
           (\<forall>n < length [[1, 2, 3], [0, 0, - 1 :: real]].
              buf ! n = (if [[1, 2, 3], [0, 0, - 1 :: real]] ! n ! 2 > 0
                         then map uminus (take 3 ([[1, 2, 3], [0, 0, - 1 :: real]] ! n)) @
                              drop 3 ([[1, 2, 3], [0, 0, - 1 :: real]] ! n)
                         else [[1, 2, 3], [0, 0, - 1 :: real]] ! n)) \<and>
           buf \<noteq> [[1, 2, 3], [0, 0, - 1 :: real]])"
proof -
  have a: "\<forall>p \<in> set [[1, 2, 3], [0, 0, - 1 :: real]]. 3 \<le> length p" by simp
  have b: "\<exists>p \<in> set [[1, 2, 3], [0, 0, - 1 :: real]]. p ! 2 > 0" by simp
  have a': "list_all (\<lambda>p. 3 \<le> length p) [[1, 2, 3], [0, 0, - 1 :: real]]" by simp
  from a' b decode_mutates_input [OF a b, of "\<lambda>p. (p ! 0, p ! 1)"] show ?thesis by blast
qed

text \<open>
  Claim C5.  For a point \<open>p\<close> of three coordinates with a positive third coordinate,
  \<open>decode\<close> on the single point \<open>p\<close> and on the single point \<open>-p\<close> both return, and the result
  for \<open>p\<close> is the result for \<open>-p\<close> with the imaginary part negated.
\<close>

theorem decode_negation_consistent:
  assumes "length p = 3" and "p ! 2 > 0"
  shows "\<exists>b1 r1 b2 r2.
           decode mlp [p] = Inr (b1, r1) \<and> decode mlp [map uminus p] = Inr (b2, r2) \<and>
           r2 = [mlp (map uminus p)] \<and> r1 = map conj_px r2"
proof -
  have p: "\<forall>q \<in> set [p]. 3 \<le> length q" using assms(1) by simp
  have m: "\<forall>q \<in> set [map uminus p]. 3 \<le> length q" using assms(1) by simp
  have z: "\<not> (map uminus p ! 2 > 0)" using assms by simp
  have t: "take 3 p = p" "drop 3 p = []" using assms(1) by simp_all
  have "decode mlp [p] = Inr ([map uminus p], [conj_px (mlp (map uminus p))])"
    unfolding decode_Inr [OF p] using assms(2) by (simp add: t conj_px_def)
  moreover have "decode mlp [map uminus p] = Inr ([map uminus p], [mlp (map uminus p)])"
    unfolding decode_Inr [OF m] using z by simp
  ultimately show ?thesis by simp
qed

theorem decode_negation_consistent_witness:
  "length [1, 2, 3 :: real] = 3 \<and> [1, 2, 3 :: real] ! 2 > 0 \<and>
   (\<exists>b1 r1 b2 r2.
           decode (\<lambda>p. (p ! 0, p ! 1)) [[1, 2, 3 :: real]] = Inr (b1, r1) \<and>
           decode (\<lambda>p. (p ! 0, p ! 1)) [map uminus [1, 2, 3 :: real]] = Inr (b2, r2) \<and>
           r2 = [(\<lambda>p. (p ! 0, p ! 1)) (map uminus [1, 2, 3 :: real])] \<and> r1 = map conj_px r2)"
proof -
  have a: "length [1, 2, 3 :: real] = 3" by simp
  have b: "[1, 2, 3 :: real] ! 2 > 0" by simp
  from a b decode_negation_consistent [OF a b, of "\<lambda>p. (p ! 0, p ! 1)"] show ?thesis by blast
qed

section \<open>Properties of HetOnlyVAE\<close>

text \<open>
  Claim C10.  With \<open>encode_mode = 'conv'\<close> and a lattice whose size is not 64, the
  constructor raises AssertionError with the message of the source.
\<close>

theorem conv_encoder_requires_64:
  assumes "lattice_D lat \<noteq> 64"
  shows "HetOnlyVAE_init R lat in_dim encode_layers encode_dim decode_layers decode_dim z_dim
           ''conv'' =
         Inl (AssertionError ''CNN encoder is hard-coded for 64x64 images'')"
  using assms by (simp add: HetOnlyVAE_init_def)

theorem conv_encoder_requires_64_witness:
  "lattice_D \<lparr> lattice_D = 32, lattice_coords = [] \<rparr> \<noteq> 64 \<and>
   HetOnlyVAE_init (\<lambda>_ _ _ _ p. (0, 0)) \<lparr> lattice_D = 32, lattice_coords = [] \<rparr> 1024 3 256 3 256 1
           ''conv'' =
         Inl (AssertionError ''CNN encoder is hard-coded for 64x64 images'')"
proof -
  have a: "lattice_D \<lparr> lattice_D = 32, lattice_coords = [] \<rparr> \<noteq> 64" by simp
  from a conv_encoder_requires_64 [OF a] show ?thesis by blast
qed

text \<open>
  Whenever \<open>cat_z\<close> returns, every point of its result has four coordinates: one latent
  number is appended, whatever the length of the latent vector.
\<close>

lemma cat_z_appends_one:
  assumes "cat_z coords z = Inr out"
  shows "\<forall>im \<in> set out. \<forall>p \<in> set im. length p = 4"
proof -
  have ok: "\<forall>im \<in> set coords. \<forall>p \<in> set im. length p = 3"
    using assms by (auto simp: cat_z_def split: if_splits)
  have out: "out = map (\<lambda>b. map (\<lambda>p. p @ [bget (concat z) b]) (coords ! b)) [0..<length coords]"
    using assms by (auto simp: cat_z_def Let_def split: if_splits)
  show ?thesis using ok by (auto simp: out)
qed

lemma cat_z_needs_one_latent:
  assumes "cat_z coords z = Inr out"
  shows "length (concat z) = length z"
  using assms by (auto simp: cat_z_def split: if_splits)

text \<open>
  Claim C8 at \<open>z_dim = 2\<close>: for one image of one point and a latent vector of two numbers,
  \<open>cat_z\<close> raises in \<open>z.view\<close> and produces no points of \<open>3 + 2\<close> coordinates.
\<close>

theorem cat_z_two_latents_raises:
  "cat_z [[[0, 0, 0]]] [[1, 2]] = Inl (RuntimeError ''shape is invalid for input size'')"
  by (simp add: cat_z_def)

section \<open>Properties of sampleSO3\<close>

text \<open>
  Claim C1 at the mean parameters \<open>(1, 0, 0, 0)\<close>: with \<open>training\<close> off, \<open>sampleSO3\<close> returns
  its two arguments as they are, so its first result is the four mean parameters and not
  the rotation matrix of that quaternion, which is the identity.
\<close>

theorem sampleSO3_eval_returns_mean_params:
  "sampleSO3 (env \<lparr> quaternions_to_SO3 := quaternion_to_SO3_spec \<rparr>) False
     (Tensor [Tensor [Scalar 1, Scalar 0, Scalar 0, Scalar 0]]) z_std =
     (Tensor [Tensor [Scalar 1, Scalar 0, Scalar 0, Scalar 0]], z_std) \<and>
   quaternion_to_SO3_spec (Tensor [Tensor [Scalar 1, Scalar 0, Scalar 0, Scalar 0]]) =
     Tensor [Tensor [Tensor [Scalar 1, Scalar 0, Scalar 0],
                     Tensor [Scalar 0, Scalar 1, Scalar 0],
                     Tensor [Scalar 0, Scalar 0, Scalar 1]]] \<and>
   fst (sampleSO3 (env \<lparr> quaternions_to_SO3 := quaternion_to_SO3_spec \<rparr>) False
     (Tensor [Tensor [Scalar 1, Scalar 0, Scalar 0, Scalar 0]]) z_std) \<noteq>
   quaternions_to_SO3 (env \<lparr> quaternions_to_SO3 := quaternion_to_SO3_spec \<rparr>)
     (Tensor [Tensor [Scalar 1, Scalar 0, Scalar 0, Scalar 0]])"
  by (simp add: sampleSO3_def)

lemma sampleSO3_eval: "sampleSO3 env False z_mu z_std = (z_mu, z_std)"
  by (simp add: sampleSO3_def)

section \<open>Properties of translate\<close>

lemma bget_nth: "i < length xs \<Longrightarrow> bget xs i = xs ! i"
  by (auto simp: bget_def)

lemma bdim_same: "bdim a a = a"
  by (simp add: bdim_def)

lemma bcompat_same: "bcompat a a"
  by (simp add: bcompat_def)

text \<open>With matching shapes no size is broadcast, and \<open>translate\<close> shifts pixel by pixel.\<close>

lemma translate_Inr:
  assumes B: "length img = length t"
    and N: "\<forall>row \<in> set img. length row = length coords"
  shows "translate coords img t =
           Inr (map (\<lambda>b. map (\<lambda>s. map (\<lambda>n. shift_px (coords ! n) (img ! b ! n) s)
                                        [0..<length coords])
                                (t ! b))
                    [0..<length img])"
proof -
  have c1: "bcompat (length img) (length t)" using B by (simp add: bcompat_def)
  have c2: "\<not> (\<exists>row \<in> set img. \<not> bcompat (length row) (length coords))"
    using N by (simp add: bcompat_def)
  have row: "map (\<lambda>s. map (\<lambda>n. shift_px (bget coords n) (bget (bget img b) n) s)
                      [0..<bdim (length (bget img b)) (length coords)]) (bget t b) =
             map (\<lambda>s. map (\<lambda>n. shift_px (coords ! n) (img ! b ! n) s) [0..<length coords]) (t ! b)"
    if b: "b < length img" for b
  proof -
    have ib: "bget img b = img ! b" using b by (rule bget_nth)
    have tb: "bget t b = t ! b" using b B by (simp add: bget_nth)
    have len: "length (img ! b) = length coords" using N b by simp
    show ?thesis
      unfolding ib tb len bdim_same by (simp add: bget_nth len)
  qed
  have "translate coords img t =
          Inr (map (\<lambda>b. map (\<lambda>s. map (\<lambda>n. shift_px (bget coords n) (bget (bget img b) n) s)
                      [0..<bdim (length (bget img b)) (length coords)]) (bget t b))
                [0..<bdim (length img) (length t)])"
    unfolding translate_def using c1 c2 by (simp only: not_True_eq_False if_False simp_thms)
  also have "bdim (length img) (length t) = length img" using B by (simp add: bdim_def)
  finally show ?thesis using row by simp
qed

lemma shift_px_zero: "shift_px k v (0, 0) = v"
  by (simp add: shift_px_def tfilt_def)

lemma tfilt_add:
  "tfilt k (fst s1 + fst s2, snd s1 + snd s2) = tfilt k s1 + tfilt k s2"
  by (simp add: tfilt_def algebra_simps)

lemma shift_px_add:
  "shift_px k (shift_px k v s1) s2 = shift_px k v (fst s1 + fst s2, snd s1 + snd s2)"
  by (simp add: shift_px_def Let_def tfilt_add cos_add sin_add algebra_simps)

text \<open>
  Claim C7.  For an image and shifts with the same batch size, and pixels matching the
  coordinates, \<open>translate\<close> by shifts that are all \<open>(0, 0)\<close> returns, for every batch element
  and every shift, the pixels of that batch element unchanged: the result is the image
  with the shift dimension added.
\<close>

theorem translate_zero_shift:
  assumes B: "length img = length t"
    and N: "\<forall>row \<in> set img. length row = length coords"
    and Z: "\<forall>ss \<in> set t. \<forall>s \<in> set ss. s = (0, 0)"
  shows "translate coords img t = Inr (map2 (\<lambda>row ss. map (\<lambda>s. row) ss) img t)"
proof -
  have "map (\<lambda>b. map (\<lambda>s. map (\<lambda>n. shift_px (coords ! n) (img ! b ! n) s) [0..<length coords])
                    (t ! b)) [0..<length img] =
        map2 (\<lambda>row ss. map (\<lambda>s. row) ss) img t"
  proof (rule nth_equalityI)
    show "length (map (\<lambda>b. map (\<lambda>s. map (\<lambda>n. shift_px (coords ! n) (img ! b ! n) s)
                    [0..<length coords]) (t ! b)) [0..<length img]) =
          length (map2 (\<lambda>row ss. map (\<lambda>s. row) ss) img t)"
      using B by simp
  next
    fix b
    assume "b < length (map (\<lambda>b. map (\<lambda>s. map (\<lambda>n. shift_px (coords ! n) (img ! b ! n) s)
                    [0..<length coords]) (t ! b)) [0..<length img])"
    then have b: "b < length img" by simp
    have len: "length (img ! b) = length coords" using N b by simp
    have "t ! b \<in> set t" using b B by simp
    then have z: "\<forall>s \<in> set (t ! b). s = (0, 0)" using Z by blast
    have px: "map (\<lambda>n. shift_px (coords ! n) (img ! b ! n) (0, 0)) [0..<length coords] = img ! b"
      by (rule nth_equalityI) (simp_all add: len shift_px_zero)
    have "map (\<lambda>s. map (\<lambda>n. shift_px (coords ! n) (img ! b ! n) s) [0..<length coords]) (t ! b) =
          map (\<lambda>s. img ! b) (t ! b)"
      using z px by (intro map_cong) auto
    then show "map (\<lambda>b. map (\<lambda>s. map (\<lambda>n. shift_px (coords ! n) (img ! b ! n) s)
                    [0..<length coords]) (t ! b)) [0..<length img] ! b =
               map2 (\<lambda>row ss. map (\<lambda>s. row) ss) img t ! b"
      using b B by simp
  qed
  then show ?thesis by (simp only: translate_Inr [OF B N])
qed

theorem translate_zero_shift_witness:
  "translate [(0, 0), (1 / 2, - 1 / 2)] [[(1, 2), (3, 4)]] [[(0, 0), (0, 0)]] =
     Inr [[[(1, 2), (3, 4)], [(1, 2), (3, 4)]]]"
proof -
  have B: "length [[(1, 2), (3, 4 :: real)] :: px list] = length [[(0, 0), (0, 0 :: real)] :: (real \<times> real) list]"
    by simp
  have N: "\<forall>row \<in> set [[(1, 2), (3, 4 :: real)] :: px list].
             length row = length [(0, 0), (1 / 2, - 1 / 2 :: real) :: real \<times> real]"
    by simp
  have Z: "\<forall>ss \<in> set [[(0, 0), (0, 0 :: real)] :: (real \<times> real) list].
             \<forall>s \<in> set ss. s = (0, 0)"
    by simp
  show ?thesis
    using translate_zero_shift [OF B N Z] by simp
qed

text \<open>
  Claim C6.  Let the image and the shift tensors \<open>t1\<close> and \<open>t2\<close> have the same batch size,
  the pixels match the coordinates, \<open>t1\<close> and \<open>t2\<close> have the same number of shifts in every
  batch element, and \<open>k\<close> be the index of a shift.  Translating the image by \<open>t1\<close>, taking
  the images of shift \<open>k\<close>, and translating these by shift \<open>k\<close> of \<open>t2\<close> gives the images of
  shift \<open>k\<close> of the single translation by \<open>t1 + t2\<close>; all three calls return.
\<close>

theorem translate_additive:
  assumes B1: "length img = length t1"
    and B2: "length t2 = length t1"
    and N: "\<forall>row \<in> set img. length row = length coords"
    and T: "\<forall>b < length t1. length (t2 ! b) = length (t1 ! b)"
    and K: "\<forall>b < length t1. k < length (t1 ! b)"
  shows "\<exists>o1 o2 o12.
           translate coords img t1 = Inr o1 \<and>
           translate coords (map (\<lambda>x. x ! k) o1) (map (\<lambda>ss. [ss ! k]) t2) = Inr o2 \<and>
           translate coords img
             (map2 (map2 (\<lambda>s1 s2. (fst s1 + fst s2, snd s1 + snd s2))) t1 t2) = Inr o12 \<and>
           o2 = map (\<lambda>x. [x ! k]) o12"
proof -
  let ?f = "\<lambda>im tt. map (\<lambda>b. map (\<lambda>s. map (\<lambda>n. shift_px (coords ! n) (im ! b ! n) s)
                                        [0..<length coords]) (tt ! b)) [0..<length im]"
  define o1 where "o1 = ?f img t1"
  define img' where "img' = map (\<lambda>x. x ! k) o1"
  define t2' where "t2' = map (\<lambda>ss. [ss ! k]) t2"
  define t12 where "t12 = map2 (map2 (\<lambda>s1 s2. (fst s1 + fst s2, snd s1 + snd s2))) t1 t2"
  define o2 where "o2 = ?f img' t2'"
  define o12 where "o12 = ?f img t12"
  have r1: "translate coords img t1 = Inr o1"
    unfolding o1_def by (rule translate_Inr [OF B1 N])
  have len': "length img' = length img" by (simp add: img'_def o1_def)
  have B': "length img' = length t2'" using B1 B2 by (simp add: len' t2'_def)
  have nth': "img' ! b = map (\<lambda>n. shift_px (coords ! n) (img ! b ! n) (t1 ! b ! k)) [0..<length coords]"
    if "b < length img" for b
    using that K B1 by (simp add: img'_def o1_def)
  have N': "\<forall>row \<in> set img'. length row = length coords"
    using nth' len' by (auto simp: in_set_conv_nth)
  have r2: "translate coords img' t2' = Inr o2"
    unfolding o2_def by (rule translate_Inr [OF B' N'])
  have B12: "length img = length t12" using B1 B2 by (simp add: t12_def)
  have r12: "translate coords img t12 = Inr o12"
    unfolding o12_def by (rule translate_Inr [OF B12 N])
  have "o2 = map (\<lambda>x. [x ! k]) o12"
  proof (rule nth_equalityI)
    show "length o2 = length (map (\<lambda>x. [x ! k]) o12)"
      by (simp add: o2_def o12_def len')
  next
    fix b
    assume "b < length o2"
    then have b: "b < length img" by (simp add: o2_def len')
    then have bt: "b < length t1" "b < length t2" using B1 B2 by simp_all
    have k1: "k < length (t1 ! b)" using K bt by simp
    then have k2: "k < length (t2 ! b)" using T bt by simp
    have s12: "t12 ! b ! k = (fst (t1 ! b ! k) + fst (t2 ! b ! k), snd (t1 ! b ! k) + snd (t2 ! b ! k))"
      using bt k1 k2 by (simp add: t12_def)
    have k12: "k < length (t12 ! b)" using bt k1 k2 by (simp add: t12_def)
    have "o2 ! b = [map (\<lambda>n. shift_px (coords ! n) (img' ! b ! n) (t2 ! b ! k)) [0..<length coords]]"
      using b bt by (simp add: o2_def len' t2'_def)
    also have "map (\<lambda>n. shift_px (coords ! n) (img' ! b ! n) (t2 ! b ! k)) [0..<length coords] =
               map (\<lambda>n. shift_px (coords ! n) (img ! b ! n) (t12 ! b ! k)) [0..<length coords]"
      by (rule map_cong) (simp_all add: nth' [OF b] shift_px_add s12)
    also have "[map (\<lambda>n. shift_px (coords ! n) (img ! b ! n) (t12 ! b ! k)) [0..<length coords]] =
               map (\<lambda>x. [x ! k]) o12 ! b"
      using b k12 by (simp add: o12_def)
    finally show "o2 ! b = map (\<lambda>x. [x ! k]) o12 ! b" .
  qed
  with r1 r2 r12 show ?thesis
    unfolding img'_def t2'_def t12_def by blast
qed

theorem translate_additive_witness:
  "\<exists>o1 o2 o12.
     translate [(1 / 2, 1 / 4)] [[(1, 2)]] [[(1, 0)]] = Inr o1 \<and>
     translate [(1 / 2, 1 / 4)] (map (\<lambda>x. x ! 0) o1) (map (\<lambda>ss. [ss ! 0]) [[(0, 1)]]) = Inr o2 \<and>
     translate [(1 / 2, 1 / 4)] [[(1, 2)]]
       (map2 (map2 (\<lambda>s1 s2. (fst s1 + fst s2, snd s1 + snd s2))) [[(1, 0)]] [[(0, 1)]]) = Inr o12 \<and>
     o2 = map (\<lambda>x. [x ! 0]) o12"
proof -
  have B1: "length [[(1, 2 :: real)] :: px list] = length [[(1, 0 :: real)] :: (real \<times> real) list]"
    by simp
  have B2: "length [[(0, 1 :: real)] :: (real \<times> real) list] = length [[(1, 0 :: real)] :: (real \<times> real) list]"
    by simp
  have N: "\<forall>row \<in> set [[(1, 2 :: real)] :: px list]. length row = length [(1 / 2, 1 / 4 :: real) :: real \<times> real]"
    by simp
  have T: "\<forall>b < length [[(1, 0 :: real)] :: (real \<times> real) list].
             length ([[(0, 1 :: real)] :: (real \<times> real) list] ! b) = length ([[(1, 0 :: real)] :: (real \<times> real) list] ! b)"
    by simp
  have K: "\<forall>b < length [[(1, 0 :: real)] :: (real \<times> real) list]. 0 < length ([[(1, 0 :: real)] :: (real \<times> real) list] ! b)"
    by simp
  show ?thesis
    by (rule translate_additive [OF B1 B2 N T K])
qed

section \<open>Properties of forward\<close>

subsection \<open>Assignment through an index array\<close>

lemma fold_upd_length:
  "length (fold (\<lambda>(i, v) acc. acc[i := v]) ps xs) = length xs"
  by (induction ps arbitrary: xs) (simp_all add: split_beta)

lemma fold_upd_other:
  "j \<notin> fst ` set ps \<Longrightarrow> fold (\<lambda>(i, v) acc. acc[i := v]) ps xs ! j = xs ! j"
  by (induction ps arbitrary: xs) (auto simp: split_beta)

lemma fold_upd_nth:
  assumes "distinct ix" and "length vs = length ix" and "k < length ix" and "ix ! k < length xs"
  shows "fold (\<lambda>(i, v) acc. acc[i := v]) (zip ix vs) xs ! (ix ! k) = vs ! k"
  using assms
proof (induction ix arbitrary: vs xs k)
  case Nil
  then show ?case by simp
next
  case (Cons i ix)
  then obtain v vs' where vs: "vs = v # vs'" by (cases vs) simp_all
  show ?case
  proof (cases k)
    case 0
    have "i \<notin> fst ` set (zip ix vs')" using Cons.prems(1) by (auto dest: set_zip_leftD)
    then have "fold (\<lambda>(i, v) acc. acc[i := v]) (zip ix vs') (xs[i := v]) ! i = xs[i := v] ! i"
      by (rule fold_upd_other)
    then show ?thesis using 0 Cons.prems(4) by (simp add: vs)
  next
    case (Suc k')
    have "fold (\<lambda>(i, v) acc. acc[i := v]) (zip ix vs') (xs[i := v]) ! (ix ! k') = vs' ! k'"
      using Cons.prems Suc by (intro Cons.IH) (simp_all add: vs)
    then show ?thesis using Suc by (simp add: vs)
  qed
qed

lemma scatter_Inr:
  assumes "scatter xs ix vs = Inr ys" and "length vs = length ix"
  shows "ys = fold (\<lambda>(i, v) acc. acc[i := v]) (zip ix vs) xs" and "\<forall>i \<in> set ix. i < length xs"
  using assms by (auto simp: scatter_def Let_def not_le split: if_splits)

lemma scatter_total:
  assumes "\<forall>i \<in> set ix. i < length xs" and "length vs = length ix"
  shows "scatter xs ix vs = Inr (fold (\<lambda>(i, v) acc. acc[i := v]) (zip ix vs) xs)"
proof -
  have "\<not> (\<exists>i \<in> set ix. length xs \<le> i)" using assms(1) by (auto simp: not_le)
  then show ?thesis using assms(2) by (simp add: scatter_def)
qed

lemma gather_Inr:
  assumes "gather xs ix = Inr ys"
  shows "ys = map ((!) xs) ix" and "\<forall>i \<in> set ix. i < length xs"
  using assms by (auto simp: gather_def split: if_splits)

subsection \<open>Where the index arrays lie\<close>

lemma row_col_unique:
  fixes q r D :: nat
  assumes "r < D"
  shows "(q * D + r) div D = q" and "(q * D + r) mod D = r"
  using assms by simp_all

lemma distinct_grid: "distinct (grid D a b)"
proof (cases "D - 1 = 0")
  case True
  then have "length (grid D a b) = 0" by (simp only: length_grid_D mult_0_right)
  then show ?thesis by simp
next
  case False
  then have n: "0 < D - 1" by simp
  show ?thesis
    unfolding distinct_conv_nth
  proof (intro allI impI)
    fix i j
    assume i: "i < length (grid D a b)" and j: "j < length (grid D a b)" and ne: "i \<noteq> j"
    have i': "i < (b - a) * (D - 1)" and j': "j < (b - a) * (D - 1)"
      using i j by (simp_all add: length_grid_D)
    have mi: "1 + i mod (D - 1) < D" and mj: "1 + j mod (D - 1) < D"
      using mod_less_divisor [OF n, of i] mod_less_divisor [OF n, of j] by arith+
    show "grid D a b ! i \<noteq> grid D a b ! j"
    proof
      assume "grid D a b ! i = grid D a b ! j"
      then have eq: "(a + i div (D - 1)) * D + (1 + i mod (D - 1)) =
                     (a + j div (D - 1)) * D + (1 + j mod (D - 1))"
        by (simp only: nth_grid_D [OF i'] nth_grid_D [OF j'])
      have "((a + i div (D - 1)) * D + (1 + i mod (D - 1))) div D = a + i div (D - 1)"
        using mi by (rule row_col_unique(1))
      moreover have "((a + j div (D - 1)) * D + (1 + j mod (D - 1))) div D = a + j div (D - 1)"
        using mj by (rule row_col_unique(1))
      ultimately have "a + i div (D - 1) = a + j div (D - 1)" using eq by (simp only:)
      then have d: "i div (D - 1) = j div (D - 1)" by simp
      have "((a + i div (D - 1)) * D + (1 + i mod (D - 1))) mod D = 1 + i mod (D - 1)"
        using mi by (rule row_col_unique(2))
      moreover have "((a + j div (D - 1)) * D + (1 + j mod (D - 1))) mod D = 1 + j mod (D - 1)"
        using mj by (rule row_col_unique(2))
      ultimately have "1 + i mod (D - 1) = 1 + j mod (D - 1)" using eq by (simp only:)
      then have m: "i mod (D - 1) = j mod (D - 1)" by simp
      have "i = i div (D - 1) * (D - 1) + i mod (D - 1)" by (rule div_mult_mod_eq [symmetric])
      also have "\<dots> = j div (D - 1) * (D - 1) + j mod (D - 1)" by (simp only: d m)
      also have "\<dots> = j" by (rule div_mult_mod_eq)
      finally show False using ne by simp
    qed
  qed
qed

lemma index_ranges:
  assumes D: "even D" "0 < D" and init: "FTSliceDecoder_init R in_dim D nlayers hidden_dim = Inr dec"
  shows "distinct (all_eval dec)"
    and "distinct (bottom_rev dec)"
    and "\<forall>i \<in> set (all_eval dec). i < D * D"
    and "\<forall>i \<in> set (bottom_rev dec). i < D * D"
    and "\<forall>i \<in> set (bottom_rev dec). center dec < i"
    and "\<forall>i \<in> set (top_ix dec). i < center dec"
    and "\<forall>i \<le> center dec. i < length (all_eval dec) \<and> all_eval dec ! i = i"
proof -
  define h where "h = D div 2"
  have Dh: "D = 2 * h" using D by (simp add: h_def)
  have h: "0 < h" using D Dh by simp
  obtain c where c: "h = Suc c" using h by (cases h) simp_all
  note f = init_fields [OF D(2) init, folded h_def]
  note tb = top_bottom_nth [OF D init, folded h_def]
  have cen: "center dec = h * D + h" using f by simp
  have m: "(D ^ 2 - (h + 1) * D + D - 1) div D = h - 1"
  proof -
    have "D ^ 2 - (h + 1) * D + D - 1 = (h - 1) * D + (D - 1)"
      by (simp add: Dh c power2_eq_square algebra_simps)
    moreover have "D - 1 < D" using D(2) by simp
    then have "((h - 1) * D + (D - 1)) div D = h - 1" by (rule row_col_unique(1))
    ultimately show ?thesis by simp
  qed
  have ex: "extra dec = map (\<lambda>k. (h + 1) * D + k * D) [0..<h - 1]"
    using f m by simp
  have ae: "all_eval dec = [0..<h * D + h + 1] @ extra dec" using f by simp
  have ex_gt: "\<forall>i \<in> set (extra dec). h * D + h < i"
    by (auto simp: ex Dh c)
  have ex_lt: "\<forall>i \<in> set (extra dec). i < D * D"
  proof
    fix i assume "i \<in> set (extra dec)"
    then obtain k where k: "k < h - 1" "i = (h + 1 + k) * D" by (auto simp: ex algebra_simps)
    then have "h + 1 + k < D" by (simp add: Dh)
    then have "(h + 1 + k) * D < D * D" using D(2) by (rule mult_strict_right_mono)
    then show "i < D * D" using k by simp
  qed
  have "inj_on (\<lambda>k. (h + 1) * D + k * D) (set [0..<h - 1])"
    using D(2) by (auto simp: inj_on_def)
  then have dex: "distinct (extra dec)" by (simp add: ex distinct_map)
  show "distinct (all_eval dec)"
    using dex ex_gt by (auto simp: ae)
  show "distinct (bottom_rev dec)"
    using f by (simp add: distinct_grid)
  have cD: "h * D + h < D * D"
  proof -
    have "h * D + h < h * D + D" using h by (simp add: Dh)
    also have "\<dots> = (h + 1) * D" by simp
    also have "\<dots> \<le> D * D" using h by (intro mult_le_mono1) (simp add: Dh)
    finally show ?thesis .
  qed
  show "\<forall>i \<in> set (all_eval dec). i < D * D"
    using ex_lt cD by (auto simp: ae)
  have bot: "center dec < bottom_rev dec ! k \<and> bottom_rev dec ! k < D * D"
    and top: "top_ix dec ! k < center dec"
    if k: "k < h * (D - 2)" for k
  proof -
    define a where "a = k div (D - 1)"
    define b where "b = k mod (D - 1)"
    have n: "0 < D - 1" using k by (cases "D - 1 = 0") simp_all
    have a: "a < h" using tb(5) [OF k] by (simp add: a_def)
    have b: "b < D - 1" using n by (simp add: b_def)
    have kab: "k = a * (D - 1) + b" unfolding a_def b_def by (rule div_mult_mod_eq [symmetric])
    have last: "b < h - 1" if "a = h - 1"
    proof -
      have "(h - 1) * (D - 1) + b < h * (D - 2)" using k kab that by simp
      moreover have "h * (D - 2) = (h - 1) * (D - 1) + (h - 1)"
        by (simp add: Dh c algebra_simps)
      ultimately show ?thesis by simp
    qed
    have t: "top_ix dec ! k = (1 + a) * D + (1 + b)"
      using tb(3) [OF k] by (simp add: a_def b_def)
    have r: "bottom_rev dec ! k = (D - (1 + a)) * D + (D - (1 + b))"
      using tb(4) [OF k] by (simp add: a_def b_def)
    show "top_ix dec ! k < center dec"
    proof (cases "a = h - 1")
      case True
      then have e: "1 + a = h" using h by simp
      have "h * D + (1 + b) < h * D + h" using last [OF True] by simp
      then show ?thesis by (simp only: t cen e)
    next
      case False
      then have "1 + a \<le> h - 1" using a by simp
      then have "(1 + a) * D \<le> (h - 1) * D" by (rule mult_le_mono1)
      moreover have "(h - 1) * D + D = h * D" using h by (simp add: c)
      ultimately have "(1 + a) * D + (1 + b) < h * D + h" using b by simp
      then show ?thesis by (simp only: t cen)
    qed
    have "(D - (1 + a)) * D + (D - (1 + b)) < (D - (1 + a)) * D + D" using D(2) by simp
    also have "\<dots> = (D - (1 + a) + 1) * D" by simp
    also have "\<dots> \<le> D * D" using a by (intro mult_le_mono1) (simp add: Dh)
    finally have up: "bottom_rev dec ! k < D * D" by (simp only: r)
    have lo: "center dec < bottom_rev dec ! k"
    proof (cases "a = h - 1")
      case True
      then have e: "D - (1 + a) = h" using h by (simp add: Dh)
      have "h < D - (1 + b)" using last [OF True] by (simp add: Dh)
      then have "h * D + h < h * D + (D - (1 + b))" by simp
      then show ?thesis by (simp only: r cen e)
    next
      case False
      then have "h + 1 \<le> D - (1 + a)" using a by (simp add: Dh)
      then have "(h + 1) * D \<le> (D - (1 + a)) * D" by (rule mult_le_mono1)
      moreover have "h * D + h < (h + 1) * D" using h by (simp add: Dh)
      ultimately have "h * D + h < (D - (1 + a)) * D + (D - (1 + b))" by simp
      then show ?thesis by (simp only: r cen)
    qed
    from lo up show "center dec < bottom_rev dec ! k \<and> bottom_rev dec ! k < D * D" ..
  qed
  show "\<forall>i \<in> set (bottom_rev dec). i < D * D"
    using bot by (auto simp: in_set_conv_nth tb(2))
  show "\<forall>i \<in> set (bottom_rev dec). center dec < i"
    using bot by (auto simp: in_set_conv_nth tb(2))
  show "\<forall>i \<in> set (top_ix dec). i < center dec"
    using top by (auto simp: in_set_conv_nth tb(1))
  show "\<forall>i \<le> center dec. i < length (all_eval dec) \<and> all_eval dec ! i = i"
  proof (intro allI impI)
    fix i assume "i \<le> center dec"
    then have i: "i < h * D + h + 1" by (simp add: cen)
    then have "([0..<h * D + h + 1] @ extra dec) ! i = [0..<h * D + h + 1] ! i"
      by (simp add: nth_append)
    also have "\<dots> = i" using i by (simp del: upt_Suc)
    finally show "i < length (all_eval dec) \<and> all_eval dec ! i = i"
      using i by (simp add: ae)
  qed
qed

subsection \<open>The mirrored half of the image\<close>

lemma forward_steps:
  assumes "forward dec uninit lattice = Inr out"
  obtains sel buf top_half image' mirrored where
    "gather lattice (all_eval dec) = Inr sel"
    "decode (decoder dec) sel = Inr (buf, top_half)"
    "scatter (map uninit [0..<length lattice]) (all_eval dec) top_half = Inr image'"
    "gather top_half (top_ix dec) = Inr mirrored"
    "scatter image' (bottom_rev dec) (map (\<lambda>(re, im). (re * 1, im * (- 1))) mirrored) = Inr out"
  using assms by (auto simp: forward_def Let_def split: sum.splits prod.splits)

lemma forward_mirror:
  assumes D: "even D" and init: "FTSliceDecoder_init R in_dim D nlayers hidden_dim = Inr dec"
    and fw: "forward dec uninit lattice = Inr out"
    and i: "i < length (top_ix dec)"
  shows "out ! (bottom_rev dec ! i) = conj_px (out ! (top_ix dec ! i))"
proof -
  have pos: "0 < D" using init init_zero [of R in_dim nlayers hidden_dim] by (cases "D = 0") auto
  note rg = index_ranges [OF D pos init]
  note tb = top_bottom_nth [OF D pos init]
  let ?upd = "\<lambda>(i, v) acc. acc[i := v]"
  let ?cj = "\<lambda>(re, im). (re * 1, im * (- 1 :: real))"
  from fw obtain sel buf top_half image' mirrored where
    g1: "gather lattice (all_eval dec) = Inr sel" and
    d: "decode (decoder dec) sel = Inr (buf, top_half)" and
    s1: "scatter (map uninit [0..<length lattice]) (all_eval dec) top_half = Inr image'" and
    g2: "gather top_half (top_ix dec) = Inr mirrored" and
    s2: "scatter image' (bottom_rev dec) (map ?cj mirrored) = Inr out"
    by (rule forward_steps)
  have lsel: "length sel = length (all_eval dec)" using gather_Inr(1) [OF g1] by simp
  have lth: "length top_half = length (all_eval dec)" using decode_length(2) [OF d] lsel by simp
  have mir: "mirrored = map ((!) top_half) (top_ix dec)" by (rule gather_Inr(1) [OF g2])
  have lmir: "length (map ?cj mirrored) = length (bottom_rev dec)"
    by (simp add: mir tb(1) tb(2))
  note S1 = scatter_Inr [OF s1 lth]
  note S2 = scatter_Inr [OF s2 lmir]
  have ib: "i < length (bottom_rev dec)" using i by (simp add: tb(1) tb(2))
  define k where "k = top_ix dec ! i"
  have kin: "k \<in> set (top_ix dec)" using i by (simp add: k_def)
  then have kc: "k < center dec" using rg(6) by blast
  then have ka: "k < length (all_eval dec)" "all_eval dec ! k = k" using rg(7) by simp_all
  have "out ! (bottom_rev dec ! i) = map ?cj mirrored ! i"
    unfolding S2(1) using rg(2) lmir ib S2(2)
    by (intro fold_upd_nth) simp_all
  also have "\<dots> = conj_px (top_half ! k)"
    using i by (simp add: mir k_def conj_px_def split_beta)
  finally have lhs: "out ! (bottom_rev dec ! i) = conj_px (top_half ! k)" .
  have "k \<notin> set (bottom_rev dec)" using rg(5) kc by auto
  then have "k \<notin> fst ` set (zip (bottom_rev dec) (map ?cj mirrored))"
    by (auto dest: set_zip_leftD)
  then have "out ! k = image' ! k"
    unfolding S2(1) by (rule fold_upd_other)
  also have "\<dots> = fold ?upd (zip (all_eval dec) top_half) (map uninit [0..<length lattice]) ! (all_eval dec ! k)"
    by (simp only: S1(1) ka(2))
  also have "\<dots> = top_half ! k"
  proof (rule fold_upd_nth [OF rg(1) lth ka(1)])
    have "all_eval dec ! k \<in> set (all_eval dec)" using ka(1) by (rule nth_mem)
    then show "all_eval dec ! k < length (map uninit [0..<length lattice])"
      using S1(2) by blast
  qed
  finally have "out ! k = top_half ! k" .
  with lhs show ?thesis by (simp add: k_def)
qed

lemma forward_total:
  assumes D: "even D" and init: "FTSliceDecoder_init R in_dim D nlayers hidden_dim = Inr dec"
    and len: "length lattice = D * D" and pts: "\<forall>p \<in> set lattice. 3 \<le> length p"
  shows "\<exists>out. forward dec uninit lattice = Inr out \<and> length out = D * D"
proof -
  have pos: "0 < D" using init init_zero [of R in_dim nlayers hidden_dim] by (cases "D = 0") auto
  note rg = index_ranges [OF D pos init]
  note tb = top_bottom_nth [OF D pos init]
  let ?upd = "\<lambda>(i, v) acc. acc[i := v]"
  let ?cj = "\<lambda>(re, im). (re * 1, im * (- 1 :: real))"
  define sel where "sel = map ((!) lattice) (all_eval dec)"
  have g1: "gather lattice (all_eval dec) = Inr sel"
    using rg(3) by (simp add: gather_def sel_def len)
  have "\<forall>p \<in> set sel. 3 \<le> length p"
    using pts rg(3) by (auto simp: sel_def len)
  from decode_Inr [OF this, of "decoder dec"] obtain buf top_half where
    d: "decode (decoder dec) sel = Inr (buf, top_half)" by blast
  have lth: "length top_half = length (all_eval dec)"
    using decode_length(2) [OF d] by (simp add: sel_def)
  define image' where "image' = fold ?upd (zip (all_eval dec) top_half) (map uninit [0..<length lattice])"
  have s1: "scatter (map uninit [0..<length lattice]) (all_eval dec) top_half = Inr image'"
    unfolding image'_def using rg(3) lth by (intro scatter_total) (simp_all add: len)
  have limg': "length image' = D * D" by (simp add: image'_def fold_upd_length len)
  define mirrored where "mirrored = map ((!) top_half) (top_ix dec)"
  have "\<forall>i \<in> set (top_ix dec). i < length top_half"
  proof
    fix i assume "i \<in> set (top_ix dec)"
    then have "i \<le> center dec" using rg(6) by (simp add: less_imp_le)
    then show "i < length top_half" using rg(7) lth by simp
  qed
  then have g2: "gather top_half (top_ix dec) = Inr mirrored"
    by (simp add: gather_def mirrored_def)
  define out where "out = fold ?upd (zip (bottom_rev dec) (map ?cj mirrored)) image'"
  have s2: "scatter image' (bottom_rev dec) (map ?cj mirrored) = Inr out"
    unfolding out_def using rg(4)
    by (intro scatter_total) (simp_all add: limg' mirrored_def tb(1) tb(2))
  have "forward dec uninit lattice = Inr out"
    unfolding forward_def Let_def by (simp only: g1 d s1 g2 s2 sum.case prod.case)
  moreover have "length out = D * D" by (simp add: out_def fold_upd_length limg')
  ultimately show ?thesis by blast
qed

text \<open>
  Claim C2.  Let \<open>D\<close> be even and the decoder be the one the constructor builds for \<open>D\<close>.
  On a lattice of \<open>D * D\<close> points of at least three coordinates, \<open>forward\<close> returns an image
  of \<open>D * D\<close> pixels; and whenever \<open>forward\<close> returns an image, for every \<open>i\<close> in the range of
  \<open>top\<close> the pixel at \<open>bottom_rev[i]\<close> is the pixel at \<open>top[i]\<close> with the imaginary part negated.
\<close>

theorem forward_conjugate_symmetry:
  assumes "even D" and "FTSliceDecoder_init R in_dim D nlayers hidden_dim = Inr dec"
  shows "(length lattice = D * D \<and> (\<forall>p \<in> set lattice. 3 \<le> length p) \<longrightarrow>
            (\<exists>out. forward dec uninit lattice = Inr out \<and> length out = D * D)) \<and>
         (\<forall>out. forward dec uninit lattice = Inr out \<longrightarrow>
            (\<forall>i < length (top_ix dec).
               out ! (bottom_rev dec ! i) = conj_px (out ! (top_ix dec ! i))))"
  using forward_total [OF assms] forward_mirror [OF assms] by blast

theorem forward_conjugate_symmetry_witness:
  "\<exists>dec out.
     FTSliceDecoder_init (\<lambda>_ _ _ _ p. (p ! 0, p ! 1)) 3 4 1 8 = Inr dec \<and>
     forward dec (\<lambda>_. (0, 0)) (replicate 16 [1, 2, 3]) = Inr out \<and>
     length out = 16 \<and> 0 < length (top_ix dec) \<and>
     out ! (bottom_rev dec ! 0) = conj_px (out ! (top_ix dec ! 0))"
proof -
  let ?R = "\<lambda>(_ :: nat) (_ :: nat) (_ :: nat) (_ :: nat) (p :: point). (p ! 0, p ! 1)"
  let ?L = "replicate 16 [1, 2, 3 :: real]"
  let ?u = "\<lambda>_ :: nat. (0 :: real, 0 :: real)"
  have e: "even (4 :: nat)" by simp
  obtain dec where dec: "FTSliceDecoder_init ?R 3 4 1 8 = Inr dec"
    using init_total [of 4 ?R 3 1 8] by auto
  have t: "0 < length (top_ix dec)"
    using top_bottom_nth(1) [OF e _ dec] by simp
  have l: "length ?L = 4 * 4" by simp
  have p: "\<forall>p \<in> set ?L. 3 \<le> length p" by simp
  note fc = forward_conjugate_symmetry [OF e dec, of ?L ?u]
  from fc l p obtain out where im: "forward dec ?u ?L = Inr out" "length out = 4 * 4"
    by blast
  from fc im(1) t have "out ! (bottom_rev dec ! 0) = conj_px (out ! (top_ix dec ! 0))"
    by blast
  with dec im t show ?thesis by auto
qed

end
